theory Spec2Isabelle
  imports Main
begin

section \<open>Images and pixel access\<close>

text \<open>
  The program of \<^verbatim>\<open>crop_cells.py\<close> works on a numpy array of shape
  \<^verbatim>\<open>(height, width, channels)\<close>. An array is its shape together with
  its contents, so an image is a record of the two dimensions and of the pixel
  stored at every (row, column); a pixel is the list of its channel values. The shape is
  kept apart from the contents because an array may have zero rows and still a positive
  width.
\<close>

type_synonym pixel = "int list"

record image =
  height :: nat
  width :: nat
  px :: "nat \<Rightarrow> nat \<Rightarrow> pixel"

text \<open>The only exception the two functions can raise themselves is numpy's index error.\<close>

datatype error = IndexError

text \<open>
  Integer indexing of an axis of length \<open>n\<close>: an index in \<open>[0, n)\<close> is taken as
  it is, an index in \<open>[-n, 0)\<close> counts from the end, anything else raises.
\<close>

definition np_index :: "nat \<Rightarrow> int \<Rightarrow> error + nat" where
  "np_index n i =
     (if 0 \<le> i \<and> i < int n then Inr (nat i)
      else if - int n \<le> i \<and> i < 0 then Inr (nat (int n + i))
      else Inl IndexError)"

text \<open>\<^verbatim>\<open>image[r, c]\<close>\<close>

definition getitem :: "image \<Rightarrow> int \<Rightarrow> int \<Rightarrow> error + pixel" where
  "getitem img r c =
     (case np_index (height img) r of
        Inl e \<Rightarrow> Inl e
      | Inr r' \<Rightarrow>
          (case np_index (width img) c of
             Inl e \<Rightarrow> Inl e
           | Inr c' \<Rightarrow> Inr (px img r' c')))"

text \<open>\<^verbatim>\<open>np.all(pixel <= tolerance)\<close>\<close>

definition is_black_pixel :: "pixel \<Rightarrow> int \<Rightarrow> bool" where
  "is_black_pixel pixel tolerance = list_all (\<lambda>channel. channel \<le> tolerance) pixel"

section \<open>The corner scanner: \<^verbatim>\<open>find_non_black_pixels\<close>\<close>

text \<open>
  A corner's entry of the result is the pair \<^verbatim>\<open>(index, axis)\<close>, the axis being one
  of the strings \<^verbatim>\<open>'horizontal'\<close>, \<^verbatim>\<open>'vertical'\<close> and \<^verbatim>\<open>''\<close>.
\<close>

type_synonym report = "int \<times> string"

record results =
  top_left :: report
  top_right :: report
  bottom_left :: report
  bottom_right :: report

datatype corner = TopLeft | TopRight | BottomLeft | BottomRight

text \<open>The pixel that the first test of a corner's loop body reads at loop index \<open>x\<close>.\<close>

fun horizontal_pixel :: "corner \<Rightarrow> image \<Rightarrow> int \<Rightarrow> error + pixel" where
  "horizontal_pixel TopLeft img x = getitem img 0 x"
| "horizontal_pixel TopRight img x = getitem img 0 (int (width img) - x - 1)"
| "horizontal_pixel BottomLeft img x = getitem img (int (height img) - 1) x"
| "horizontal_pixel BottomRight img x =
     getitem img (int (height img) - 1) (int (width img) - x - 1)"

text \<open>The pixel that the second test of the loop body reads.\<close>

fun vertical_pixel :: "corner \<Rightarrow> image \<Rightarrow> int \<Rightarrow> error + pixel" where
  "vertical_pixel TopLeft img x = getitem img x 0"
| "vertical_pixel TopRight img x = getitem img x (int (width img) - 1)"
| "vertical_pixel BottomLeft img x = getitem img (int (height img) - x - 1) 0"
| "vertical_pixel BottomRight img x =
     getitem img (int (height img) - x - 1) (int (width img) - 1)"

text \<open>
  One \<^verbatim>\<open>for x in range(width)\<close> loop. The last argument is the value of the
  variables \<^verbatim>\<open>(index, axis)\<close> when the loop starts: the loop assigns them only
  on a hit, so this is also their value when the loop runs to its end.
\<close>

fun scan_corner :: "corner \<Rightarrow> image \<Rightarrow> int \<Rightarrow> nat list \<Rightarrow> report \<Rightarrow> error + report" where
  "scan_corner c img tolerance [] st = Inr st"
| "scan_corner c img tolerance (x # xs) st =
     (case horizontal_pixel c img (int x) of
        Inl e \<Rightarrow> Inl e
      | Inr p \<Rightarrow>
          if \<not> is_black_pixel p tolerance then Inr (int x, ''horizontal'')
          else
            (case vertical_pixel c img (int x) of
               Inl e \<Rightarrow> Inl e
             | Inr q \<Rightarrow>
                 if \<not> is_black_pixel q tolerance then Inr (int x, ''vertical'')
                 else scan_corner c img tolerance xs st))"

text \<open>
  The four loops in sequence. \<^verbatim>\<open>axis = ''\<close> and \<^verbatim>\<open>index = 0\<close> are
  assigned once, before the first loop; every later loop starts from the variables as the
  loop before it left them.
\<close>

definition find_non_black_pixels :: "image \<Rightarrow> int \<Rightarrow> error + results" where
  "find_non_black_pixels img tolerance =
     (let xs = [0..<width img] in
      case scan_corner TopLeft img tolerance xs (0, '''') of
        Inl e \<Rightarrow> Inl e
      | Inr r_tl \<Rightarrow>
      (case scan_corner TopRight img tolerance xs r_tl of
        Inl e \<Rightarrow> Inl e
      | Inr r_tr \<Rightarrow>
      (case scan_corner BottomLeft img tolerance xs r_tr of
        Inl e \<Rightarrow> Inl e
      | Inr r_bl \<Rightarrow>
      (case scan_corner BottomRight img tolerance xs r_bl of
        Inl e \<Rightarrow> Inl e
      | Inr r_br \<Rightarrow>
          Inr \<lparr>top_left = r_tl, top_right = r_tr, bottom_left = r_bl, bottom_right = r_br\<rparr>))))"

section \<open>The crop resolver: \<^verbatim>\<open>crop_and_save\<close>\<close>

text \<open>The four crop coordinates. They are Python integers: nothing keeps them in the image.\<close>

record box =
  box_left :: int
  box_right :: int
  box_top :: int
  box_bottom :: int

text \<open>
  The boundary computation of \<^verbatim>\<open>crop_and_save\<close>, from the dictionary of the four
  reports, the image's width and height and \<^verbatim>\<open>crop_tolerance\<close> (the margin). Each
  \<^verbatim>\<open>if\<close> statement of the source is one binding, in the source's order.
\<close>

definition crop_box :: "results \<Rightarrow> nat \<Rightarrow> nat \<Rightarrow> int \<Rightarrow> box" where
  "crop_box non_black w h crop_tolerance =
     (let left = 0;
          right = int w;
          top' = 0;
          bottom = int h;
          left = (if snd (top_left non_black) = ''horizontal''
                  then fst (top_left non_black) + crop_tolerance else left);
          left = (if snd (bottom_left non_black) = ''horizontal''
                  then max left (fst (bottom_left non_black) + crop_tolerance) else left);
          right = (if snd (top_right non_black) = ''horizontal''
                   then int w - fst (top_right non_black) - crop_tolerance else right);
          right = (if snd (bottom_right non_black) = ''horizontal''
                   then min right (int w - fst (bottom_right non_black) - crop_tolerance)
                   else right);
          top' = (if snd (top_left non_black) = ''vertical''
                  then fst (top_left non_black) + crop_tolerance else top');
          top' = (if snd (top_right non_black) = ''vertical''
                  then max top' (fst (top_right non_black) + crop_tolerance) else top');
          bottom = (if snd (bottom_left non_black) = ''vertical''
                    then int h - fst (bottom_left non_black) - crop_tolerance else bottom);
          bottom = (if snd (bottom_right non_black) = ''vertical''
                    then min bottom (int h - fst (bottom_right non_black) - crop_tolerance)
                    else bottom)
      in \<lparr>box_left = left, box_right = right, box_top = top', box_bottom = bottom\<rparr>)"

text \<open>
  A bound of a slice with step 1 over an axis of length \<open>n\<close>: a negative bound counts
  from the end, and a bound outside the axis is moved to its nearer end. A slice never
  raises.
\<close>

definition slice_index :: "nat \<Rightarrow> int \<Rightarrow> nat" where
  "slice_index n i =
     (if i < 0 then (if i + int n < 0 then 0 else nat (i + int n))
      else if int n \<le> i then n
      else nat i)"

text \<open>\<^verbatim>\<open>image[top:bottom, left:right]\<close>; a slice whose end is before its start is empty.\<close>

definition slice_image :: "image \<Rightarrow> int \<Rightarrow> int \<Rightarrow> int \<Rightarrow> int \<Rightarrow> image" where
  "slice_image img top' bottom left right =
     (let r0 = slice_index (height img) top';
          r1 = slice_index (height img) bottom;
          c0 = slice_index (width img) left;
          c1 = slice_index (width img) right
      in \<lparr>height = r1 - r0, width = c1 - c0, px = (\<lambda>r c. px img (r0 + r) (c0 + c))\<rparr>)"

subsection \<open>The output name\<close>

text \<open>
  \<^verbatim>\<open>os.path.splitext\<close> belongs to Python's standard library. The definitions below
  follow the library's \<^verbatim>\<open>genericpath._splitext(p, sep, altsep, extsep)\<close>, which the
  POSIX and the Windows \<^verbatim>\<open>os.path\<close> both call.
\<close>

text \<open>\<^verbatim>\<open>p.rfind(c)\<close> for a single character: the last position of \<open>c\<close>, or \<open>-1\<close>.\<close>

definition rfind :: "string \<Rightarrow> char \<Rightarrow> int" where
  "rfind p c =
     (case filter (\<lambda>i. p ! i = c) (rev [0..<length p]) of
        [] \<Rightarrow> - 1
      | i # _ \<Rightarrow> int i)"

text \<open>
  The loop that skips the leading dots of the file name: it answers whether some
  character from \<open>filenameIndex\<close> up to \<open>dotIndex\<close> (excluded) is not the extension
  separator.
\<close>

function skip_leading_dots :: "string \<Rightarrow> char \<Rightarrow> nat \<Rightarrow> nat \<Rightarrow> bool" where
  "skip_leading_dots p extsep filenameIndex dotIndex =
     (if filenameIndex < dotIndex then
        (if p ! filenameIndex \<noteq> extsep then True
         else skip_leading_dots p extsep (filenameIndex + 1) dotIndex)
      else False)"
  by pat_completeness auto
termination
  by (relation "measure (\<lambda>(p, extsep, filenameIndex, dotIndex). dotIndex - filenameIndex)") auto

definition splitext_generic :: "string \<Rightarrow> char \<Rightarrow> char option \<Rightarrow> char \<Rightarrow> string \<times> string" where
  "splitext_generic p sep altsep extsep =
     (let sepIndex = rfind p sep;
          sepIndex = (case altsep of None \<Rightarrow> sepIndex | Some a \<Rightarrow> max sepIndex (rfind p a));
          dotIndex = rfind p extsep
      in if sepIndex < dotIndex \<and> skip_leading_dots p extsep (nat (sepIndex + 1)) (nat dotIndex)
         then (take (nat dotIndex) p, drop (nat dotIndex) p)
         else (p, []))"

text \<open>\<^verbatim>\<open>posixpath.splitext\<close> and \<^verbatim>\<open>ntpath.splitext\<close>\<close>

definition posix_splitext :: "string \<Rightarrow> string \<times> string" where
  "posix_splitext p = splitext_generic p (CHR ''/'') None (CHR ''.'')"

definition nt_splitext :: "string \<Rightarrow> string \<times> string" where
  "nt_splitext p = splitext_generic p (CHR 0x5C) (Some (CHR ''/'')) (CHR ''.'')"

text \<open>\<^verbatim>\<open>f"{base}_cropped{ext}"\<close>, for either \<^verbatim>\<open>os.path.splitext\<close>\<close>

definition cropped_filename :: "(string \<Rightarrow> string \<times> string) \<Rightarrow> string \<Rightarrow> string" where
  "cropped_filename splitext image_filename =
     (case splitext image_filename of (base, ext) \<Rightarrow> base @ ''_cropped'' @ ext)"

subsection \<open>Cropping and saving\<close>

text \<open>
  \<^verbatim>\<open>cv2.imwrite\<close> is the external writer and \<^verbatim>\<open>os.path.splitext\<close> depends on
  the platform, so both are parameters: the value of \<open>crop_and_save\<close> is the writer's
  call on the derived name and the cropped image. Between the boundary computation and
  that call the source has the slice and nothing else. The two \<^verbatim>\<open>print\<close> calls are
  left out.
\<close>

definition crop_and_save ::
  "(string \<Rightarrow> image \<Rightarrow> 'w) \<Rightarrow> (string \<Rightarrow> string \<times> string) \<Rightarrow> image \<Rightarrow> results \<Rightarrow> string \<Rightarrow> int \<Rightarrow> 'w" where
  "crop_and_save imwrite splitext img non_black image_filename crop_tolerance =
     (let b = crop_box non_black (width img) (height img) crop_tolerance;
          cropped_image = slice_image img (box_top b) (box_bottom b) (box_left b) (box_right b)
      in imwrite (cropped_filename splitext image_filename) cropped_image)"

text \<open>
  The writer of the program is \<^verbatim>\<open>cv2.imwrite\<close>, a function of OpenCV. What the
  statements below need of it: it refuses an image without pixels with the exception
  \<^verbatim>\<open>cv2.error\<close>, and for a file name with an image extension it writes the pixels
  it is given, row by row. The written file is the returned pair of name and rows.
\<close>

datatype cv2_error = Cv2Error

definition pixel_rows :: "image \<Rightarrow> pixel list list" where
  "pixel_rows img = map (\<lambda>r. map (\<lambda>c. px img r c) [0..<width img]) [0..<height img]"

definition cv2_imwrite :: "string \<Rightarrow> image \<Rightarrow> cv2_error + string \<times> pixel list list" where
  "cv2_imwrite filename img =
     (if height img = 0 \<or> width img = 0 then Inl Cv2Error
      else Inr (filename, pixel_rows img))"

section \<open>Positions and inputs used in the statements\<close>

text \<open>\<^verbatim>\<open>results[corner]\<close>\<close>

fun report_of :: "corner \<Rightarrow> results \<Rightarrow> report" where
  "report_of TopLeft r = top_left r"
| "report_of TopRight r = top_right r"
| "report_of BottomLeft r = bottom_left r"
| "report_of BottomRight r = bottom_right r"

text \<open>
  The positions (row, column) of the two checks as the specification words them: the
  horizontal check is on the row adjacent to the corner (row \<open>0\<close> for the top corners,
  row \<open>H - 1\<close> for the bottom ones) at column \<open>i\<close> counted inward from the corner's
  side; the vertical check is on the column adjacent to the corner (column \<open>0\<close> for the
  left corners, \<open>W - 1\<close> for the right ones) at row \<open>i\<close> counted inward. They are
  compared below with what \<open>horizontal_pixel\<close> and \<open>vertical_pixel\<close> read.
\<close>

fun horizontal_check_pos :: "corner \<Rightarrow> image \<Rightarrow> nat \<Rightarrow> nat \<times> nat" where
  "horizontal_check_pos TopLeft img i = (0, i)"
| "horizontal_check_pos TopRight img i = (0, width img - 1 - i)"
| "horizontal_check_pos BottomLeft img i = (height img - 1, i)"
| "horizontal_check_pos BottomRight img i = (height img - 1, width img - 1 - i)"

fun vertical_check_pos :: "corner \<Rightarrow> image \<Rightarrow> nat \<Rightarrow> nat \<times> nat" where
  "vertical_check_pos TopLeft img i = (i, 0)"
| "vertical_check_pos TopRight img i = (i, width img - 1)"
| "vertical_check_pos BottomLeft img i = (height img - 1 - i, 0)"
| "vertical_check_pos BottomRight img i = (height img - 1 - i, width img - 1)"

definition pixel_at :: "image \<Rightarrow> nat \<times> nat \<Rightarrow> pixel" where
  "pixel_at img pos = px img (fst pos) (snd pos)"

text \<open>The result in which no corner has evidence.\<close>

definition default_results :: results where
  "default_results =
     \<lparr>top_left = (0, ''''), top_right = (0, ''''),
      bottom_left = (0, ''''), bottom_right = (0, '''')\<rparr>"

definition black :: pixel where
  "black = [0, 0, 0]"

definition white :: pixel where
  "white = [255, 255, 255]"

text \<open>One row, two columns, all black.\<close>

definition wide_black_image :: image where
  "wide_black_image = \<lparr>height = 1, width = 2, px = (\<lambda>r c. black)\<rparr>"

text \<open>Two rows, three columns, all black.\<close>

definition landscape_black_image :: image where
  "landscape_black_image = \<lparr>height = 2, width = 3, px = (\<lambda>r c. black)\<rparr>"

text \<open>Two rows, two columns, black but for the pixel of row 1, column 0.\<close>

definition lower_left_image :: image where
  "lower_left_image =
     \<lparr>height = 2, width = 2, px = (\<lambda>r c. if r = 1 \<and> c = 0 then white else black)\<rparr>"

text \<open>
  Ten rows, ten columns: a 6 by 6 square of the pixel \<open>red\<close> inside a black border that
  is two pixels wide.
\<close>

definition red_square_image :: "pixel \<Rightarrow> image" where
  "red_square_image red =
     \<lparr>height = 10, width = 10,
      px = (\<lambda>r c. if 2 \<le> r \<and> r < 8 \<and> 2 \<le> c \<and> c < 8 then red else black)\<rparr>"

definition zero_width_image :: image where
  "zero_width_image = \<lparr>height = 3, width = 0, px = (\<lambda>r c. white)\<rparr>"

definition zero_height_image :: image where
  "zero_height_image = \<lparr>height = 0, width = 3, px = (\<lambda>r c. white)\<rparr>"

text \<open>Four rows, four columns, all white: narrower than twice the default margin 5.\<close>

definition small_white_image :: image where
  "small_white_image = \<lparr>height = 4, width = 4, px = (\<lambda>r c. white)\<rparr>"

text \<open>
  Three rows, three columns, black but for the pixels at (0, 1) and (1, 0): both checks
  of the top-left corner hit at index 1 for the first time.
\<close>

definition tie_image :: image where
  "tie_image =
     \<lparr>height = 3, width = 3,
      px = (\<lambda>r c. if (r = 0 \<and> c = 1) \<or> (r = 1 \<and> c = 0) then white else black)\<rparr>"

definition sample_reports :: results where
  "sample_reports =
     \<lparr>top_left = (2, ''horizontal''), top_right = (1, ''vertical''),
      bottom_left = (3, ''horizontal''), bottom_right = (4, ''vertical'')\<rparr>"

text \<open>Only the top-left corner has evidence: a hit at offset 0 on its row.\<close>

definition edge_reports :: results where
  "edge_reports =
     \<lparr>top_left = (0, ''horizontal''), top_right = (0, ''''),
      bottom_left = (0, ''''), bottom_right = (0, '''')\<rparr>"

text \<open>Every corner has a hit at offset 0 on its row.\<close>

definition all_horizontal_reports :: results where
  "all_horizontal_reports =
     \<lparr>top_left = (0, ''horizontal''), top_right = (0, ''horizontal''),
      bottom_left = (0, ''horizontal''), bottom_right = (0, ''horizontal'')\<rparr>"

text \<open>
  Two rows, five columns, black but for the pixels at (0, 1) and (1, 0): the tie of
  \<open>tie_image\<close> at the top-left corner, in an image that is wider than high.
\<close>

definition wide_tie_image :: image where
  "wide_tie_image =
     \<lparr>height = 2, width = 5,
      px = (\<lambda>r c. if (r = 0 \<and> c = 1) \<or> (r = 1 \<and> c = 0) then white else black)\<rparr>"

text \<open>
  Fourteen rows, four columns. The pixels at (0, 3), (1, 0), (12, 0) and (12, 3) are
  white; every other pixel is background and holds its own row and column, so that a
  region of the image is recognised by its content.
\<close>

definition narrow_image :: image where
  "narrow_image =
     \<lparr>height = 14, width = 4,
      px = (\<lambda>r c. if (r = 0 \<and> c = 3) \<or> (r = 1 \<and> c = 0) \<or> (r = 12 \<and> c = 0) \<or> (r = 12 \<and> c = 3)
                   then white else [int r, int c, 0])\<rparr>"

definition narrow_reports :: results where
  "narrow_reports =
     \<lparr>top_left = (1, ''vertical''), top_right = (0, ''horizontal''),
      bottom_left = (1, ''vertical''), bottom_right = (1, ''vertical'')\<rparr>"

text \<open>
  The place of the extension in a path, for the list of path separators of a platform:
  \<open>i\<close> is the position of the last \<open>.\<close> of \<open>p\<close>, and some position \<open>k\<close> before it
  holds a character other than \<open>.\<close> with no separator at \<open>k\<close> or after it. So the
  \<open>.\<close> lies in the last component of the path, after a character of that component
  that is not a \<open>.\<close>.
\<close>

definition extension_at :: "char list \<Rightarrow> string \<Rightarrow> nat \<Rightarrow> bool" where
  "extension_at seps p i =
     (i < length p \<and> p ! i = CHR ''.'' \<and> CHR ''.'' \<notin> set (drop (Suc i) p) \<and>
      (\<exists>k<i. p ! k \<noteq> CHR ''.'' \<and> list_all (\<lambda>s. s \<notin> set (drop k p)) seps))"

section \<open>The boundaries of the crop box\<close>

lemma box_left_crop_box:
  "box_left (crop_box nb w h m) =
     (if snd (top_left nb) = ''horizontal''
      then (if snd (bottom_left nb) = ''horizontal''
            then max (fst (top_left nb) + m) (fst (bottom_left nb) + m)
            else fst (top_left nb) + m)
      else (if snd (bottom_left nb) = ''horizontal''
            then max 0 (fst (bottom_left nb) + m) else 0))"
  by (simp add: crop_box_def Let_def)

lemma box_right_crop_box:
  "box_right (crop_box nb w h m) =
     (if snd (top_right nb) = ''horizontal''
      then (if snd (bottom_right nb) = ''horizontal''
            then min (int w - fst (top_right nb) - m) (int w - fst (bottom_right nb) - m)
            else int w - fst (top_right nb) - m)
      else (if snd (bottom_right nb) = ''horizontal''
            then min (int w) (int w - fst (bottom_right nb) - m) else int w))"
  by (simp add: crop_box_def Let_def)

lemma box_top_crop_box:
  "box_top (crop_box nb w h m) =
     (if snd (top_left nb) = ''vertical''
      then (if snd (top_right nb) = ''vertical''
            then max (fst (top_left nb) + m) (fst (top_right nb) + m)
            else fst (top_left nb) + m)
      else (if snd (top_right nb) = ''vertical''
            then max 0 (fst (top_right nb) + m) else 0))"
  by (simp add: crop_box_def Let_def)

lemma box_bottom_crop_box:
  "box_bottom (crop_box nb w h m) =
     (if snd (bottom_left nb) = ''vertical''
      then (if snd (bottom_right nb) = ''vertical''
            then min (int h - fst (bottom_left nb) - m) (int h - fst (bottom_right nb) - m)
            else int h - fst (bottom_left nb) - m)
      else (if snd (bottom_right nb) = ''vertical''
            then min (int h) (int h - fst (bottom_right nb) - m) else int h))"
  by (simp add: crop_box_def Let_def)

lemma box_left_mono:
  "m1 \<le> m2 \<Longrightarrow> box_left (crop_box nb w h m1) \<le> box_left (crop_box nb w h m2)"
  by (auto simp add: box_left_crop_box)

lemma box_top_mono:
  "m1 \<le> m2 \<Longrightarrow> box_top (crop_box nb w h m1) \<le> box_top (crop_box nb w h m2)"
  by (auto simp add: box_top_crop_box)

lemma box_right_antimono:
  "m1 \<le> m2 \<Longrightarrow> box_right (crop_box nb w h m2) \<le> box_right (crop_box nb w h m1)"
  by (auto simp add: box_right_crop_box)

lemma box_bottom_antimono:
  "m1 \<le> m2 \<Longrightarrow> box_bottom (crop_box nb w h m2) \<le> box_bottom (crop_box nb w h m1)"
  by (auto simp add: box_bottom_crop_box)

text \<open>
  C8. For fixed reports and dimensions and two margins \<open>m1 \<le> m2\<close>, the box of the
  larger margin has its left and top no smaller and its right and bottom no larger than
  the box of the smaller margin: the region shrinks or stays as it is when the margin
  grows.
\<close>

theorem crop_box_margin_monotone:
  assumes "m1 \<le> m2"
  shows "box_left (crop_box nb w h m1) \<le> box_left (crop_box nb w h m2) \<and>
         box_top (crop_box nb w h m1) \<le> box_top (crop_box nb w h m2) \<and>
         box_right (crop_box nb w h m2) \<le> box_right (crop_box nb w h m1) \<and>
         box_bottom (crop_box nb w h m2) \<le> box_bottom (crop_box nb w h m1)"
  using assms box_left_mono box_top_mono box_right_antimono box_bottom_antimono
  by blast

theorem crop_box_margin_monotone_witness:
  "(0::int) \<le> 5 \<and>
   box_left (crop_box sample_reports 20 10 0) \<le> box_left (crop_box sample_reports 20 10 5) \<and>
   box_top (crop_box sample_reports 20 10 0) \<le> box_top (crop_box sample_reports 20 10 5) \<and>
   box_right (crop_box sample_reports 20 10 5) \<le> box_right (crop_box sample_reports 20 10 0) \<and>
   box_bottom (crop_box sample_reports 20 10 5) \<le> box_bottom (crop_box sample_reports 20 10 0) \<and>
   crop_box sample_reports 20 10 0 =
     \<lparr>box_left = 3, box_right = 20, box_top = 1, box_bottom = 6\<rparr> \<and>
   crop_box sample_reports 20 10 5 =
     \<lparr>box_left = 8, box_right = 20, box_top = 6, box_bottom = 1\<rparr>"
proof -
  have h: "(0::int) \<le> 5" by simp
  show ?thesis
    using h crop_box_margin_monotone [OF h, of sample_reports 20 10]
    by (simp add: crop_box_def sample_reports_def Let_def)
qed

section \<open>The corner loops\<close>

lemma horizontal_pixel_in_range:
  "i < height img \<Longrightarrow> i < width img \<Longrightarrow>
   horizontal_pixel c img (int i) = Inr (pixel_at img (horizontal_check_pos c img i))"
  by (cases c) (auto simp add: getitem_def np_index_def pixel_at_def nat_diff_distrib)

lemma vertical_pixel_in_range:
  "i < height img \<Longrightarrow> i < width img \<Longrightarrow>
   vertical_pixel c img (int i) = Inr (pixel_at img (vertical_check_pos c img i))"
  by (cases c) (auto simp add: getitem_def np_index_def pixel_at_def nat_diff_distrib)

lemma scan_corner_skip:
  assumes "\<forall>x\<in>set xs. x < height img \<and> x < width img \<and>
             is_black_pixel (pixel_at img (horizontal_check_pos c img x)) tol \<and>
             is_black_pixel (pixel_at img (vertical_check_pos c img x)) tol"
  shows "scan_corner c img tol (xs @ ys) st = scan_corner c img tol ys st"
  using assms
  by (induction xs) (simp_all add: horizontal_pixel_in_range vertical_pixel_in_range)

lemma scan_corner_hit:
  assumes "i < height img" "i < width img"
    and "\<not> is_black_pixel (pixel_at img (horizontal_check_pos c img i)) tol"
  shows "scan_corner c img tol (i # ys) st = Inr (int i, ''horizontal'')"
  using assms by (simp add: horizontal_pixel_in_range)

lemma upt_split_at: "i < n \<Longrightarrow> [0..<n] = [0..<i] @ i # [Suc i..<n]"
  using upt_add_eq_append [of 0 i "n - i"] by (simp add: upt_conv_Cons)

lemma scan_corner_first_hit:
  assumes "i < height img" "i < width img"
    and "\<not> is_black_pixel (pixel_at img (horizontal_check_pos c img i)) tol"
    and "\<forall>j<i. is_black_pixel (pixel_at img (horizontal_check_pos c img j)) tol \<and>
               is_black_pixel (pixel_at img (vertical_check_pos c img j)) tol"
  shows "scan_corner c img tol [0..<width img] st = Inr (int i, ''horizontal'')"
proof -
  have split: "[0..<width img] = [0..<i] @ i # [Suc i..<width img]"
    using assms(2) by (rule upt_split_at)
  have "\<forall>x\<in>set [0..<i]. x < height img \<and> x < width img \<and>
             is_black_pixel (pixel_at img (horizontal_check_pos c img x)) tol \<and>
             is_black_pixel (pixel_at img (vertical_check_pos c img x)) tol"
    using assms by simp
  then have "scan_corner c img tol ([0..<i] @ i # [Suc i..<width img]) st =
             scan_corner c img tol (i # [Suc i..<width img]) st"
    by (rule scan_corner_skip)
  also have "\<dots> = Inr (int i, ''horizontal'')"
    using assms(1-3) by (rule scan_corner_hit)
  finally show ?thesis using split by simp
qed

lemma scan_corner_returns:
  assumes "\<forall>x\<in>set xs. x < height img \<and> x < width img"
  shows "\<exists>r. scan_corner c img tol xs st = Inr r"
  using assms
  by (induction xs) (simp_all add: horizontal_pixel_in_range vertical_pixel_in_range)

lemma find_non_black_pixels_returns:
  assumes "width img \<le> height img"
  shows "\<exists>r. find_non_black_pixels img tol = Inr r"
proof -
  have inb: "\<forall>x\<in>set [0..<width img]. x < height img \<and> x < width img"
    using assms by simp
  obtain a where a: "scan_corner TopLeft img tol [0..<width img] (0, '''') = Inr a"
    using scan_corner_returns [OF inb] by blast
  obtain b where b: "scan_corner TopRight img tol [0..<width img] a = Inr b"
    using scan_corner_returns [OF inb] by blast
  obtain c where c: "scan_corner BottomLeft img tol [0..<width img] b = Inr c"
    using scan_corner_returns [OF inb] by blast
  obtain d where d: "scan_corner BottomRight img tol [0..<width img] c = Inr d"
    using scan_corner_returns [OF inb] by blast
  show ?thesis
    by (simp add: find_non_black_pixels_def a b c d)
qed

lemma find_non_black_pixels_report:
  assumes "find_non_black_pixels img tol = Inr r"
  shows "\<exists>st. scan_corner c img tol [0..<width img] st = Inr (report_of c r)"
  using assms
  by (cases c) (auto simp add: find_non_black_pixels_def Let_def split: sum.splits, blast+)

text \<open>
  The tie-break of one loop. If at a scan index \<open>i\<close> the pixel of the horizontal check
  and the pixel of the vertical check are both non-background, and both checks found only
  background at every earlier index, then the corner's loop ends with \<open>(i, horizontal)\<close>,
  whatever the variables held before it; so this is the corner's report in every result
  that \<open>find_non_black_pixels\<close> returns, and it does return one when the image is not
  wider than high.
\<close>

lemma tie_break_horizontal:
  assumes "i < height img" and "i < width img"
    and "\<not> is_black_pixel (pixel_at img (horizontal_check_pos c img i)) tol"
    and "\<not> is_black_pixel (pixel_at img (vertical_check_pos c img i)) tol"
    and "\<forall>j<i. is_black_pixel (pixel_at img (horizontal_check_pos c img j)) tol \<and>
               is_black_pixel (pixel_at img (vertical_check_pos c img j)) tol"
  shows "scan_corner c img tol [0..<width img] st = Inr (int i, ''horizontal'') \<and>
         (\<forall>r. find_non_black_pixels img tol = Inr r \<longrightarrow>
              report_of c r = (int i, ''horizontal'')) \<and>
         (width img \<le> height img \<longrightarrow> (\<exists>r. find_non_black_pixels img tol = Inr r))"
proof -
  have loop: "scan_corner c img tol [0..<width img] s = Inr (int i, ''horizontal'')" for s
    using assms(1,2,3,5) by (rule scan_corner_first_hit)
  have "report_of c r = (int i, ''horizontal'')"
    if ret: "find_non_black_pixels img tol = Inr r" for r
  proof -
    obtain s where "scan_corner c img tol [0..<width img] s = Inr (report_of c r)"
      using find_non_black_pixels_report [OF ret] by blast
    with loop [of s] show ?thesis by simp
  qed
  then show ?thesis
    using loop find_non_black_pixels_returns by blast
qed

lemma tie_break_horizontal_witness:
  "(1::nat) < height tie_image \<and> 1 < width tie_image \<and>
   \<not> is_black_pixel (pixel_at tie_image (horizontal_check_pos TopLeft tie_image 1)) 30 \<and>
   \<not> is_black_pixel (pixel_at tie_image (vertical_check_pos TopLeft tie_image 1)) 30 \<and>
   is_black_pixel (pixel_at tie_image (horizontal_check_pos TopLeft tie_image 0)) 30 \<and>
   is_black_pixel (pixel_at tie_image (vertical_check_pos TopLeft tie_image 0)) 30 \<and>
   scan_corner TopLeft tie_image 30 [0..<width tie_image] (0, '''') = Inr (1, ''horizontal'') \<and>
   (\<exists>r. find_non_black_pixels tie_image 30 = Inr r \<and> top_left r = (1, ''horizontal''))"
proof -
  have h1: "(1::nat) < height tie_image" and h2: "(1::nat) < width tie_image"
    by (simp_all add: tie_image_def)
  have h3: "\<not> is_black_pixel (pixel_at tie_image (horizontal_check_pos TopLeft tie_image 1)) 30"
    and h4: "\<not> is_black_pixel (pixel_at tie_image (vertical_check_pos TopLeft tie_image 1)) 30"
    by (simp_all add: tie_image_def pixel_at_def is_black_pixel_def white_def)
  have h0: "is_black_pixel (pixel_at tie_image (horizontal_check_pos TopLeft tie_image 0)) 30 \<and>
            is_black_pixel (pixel_at tie_image (vertical_check_pos TopLeft tie_image 0)) 30"
    by (simp add: tie_image_def pixel_at_def is_black_pixel_def black_def)
  then have h5: "\<forall>j<1. is_black_pixel (pixel_at tie_image (horizontal_check_pos TopLeft tie_image j)) 30 \<and>
                    is_black_pixel (pixel_at tie_image (vertical_check_pos TopLeft tie_image j)) 30"
    by simp
  have sq: "width tie_image \<le> height tie_image"
    by (simp add: tie_image_def)
  note t = tie_break_horizontal [OF h1 h2 h3 h4 h5, of "(0, '''')"]
  from t sq obtain r where r: "find_non_black_pixels tie_image 30 = Inr r"
    by blast
  with t have "report_of TopLeft r = (1, ''horizontal'')"
    by simp
  with r have "\<exists>r. find_non_black_pixels tie_image 30 = Inr r \<and> top_left r = (1, ''horizontal'')"
    by auto
  with h1 h2 h3 h4 h0 t show ?thesis
    by simp
qed

text \<open>
  C6, on the code. The claim gives the report \<open>(i, horizontal)\<close> for every image,
  tolerance and corner where both checks hit at index \<open>i\<close> for the first time. On the
  image of two rows and five columns whose pixels at (0, 1) and (1, 0) are white, both
  checks of the top-left corner hit at index 1 for the first time and its loop ends with
  \<open>(1, horizontal)\<close>; the top-right loop after it reaches index 2 and reads row 2, which
  the image does not have. The scanner raises the index error and returns no report for
  any corner.
\<close>

theorem tie_break_lost_on_wide_image:
  "(1::nat) < height wide_tie_image \<and> 1 < width wide_tie_image \<and>
   \<not> is_black_pixel (pixel_at wide_tie_image (horizontal_check_pos TopLeft wide_tie_image 1)) 30 \<and>
   \<not> is_black_pixel (pixel_at wide_tie_image (vertical_check_pos TopLeft wide_tie_image 1)) 30 \<and>
   is_black_pixel (pixel_at wide_tie_image (horizontal_check_pos TopLeft wide_tie_image 0)) 30 \<and>
   is_black_pixel (pixel_at wide_tie_image (vertical_check_pos TopLeft wide_tie_image 0)) 30 \<and>
   scan_corner TopLeft wide_tie_image 30 [0..<width wide_tie_image] (0, '''') =
     Inr (1, ''horizontal'') \<and>
   vertical_pixel TopRight wide_tie_image 2 = Inl IndexError \<and>
   scan_corner TopRight wide_tie_image 30 [0..<width wide_tie_image] (1, ''horizontal'') =
     Inl IndexError \<and>
   find_non_black_pixels wide_tie_image 30 = Inl IndexError"
  by (simp add: find_non_black_pixels_def wide_tie_image_def upt_rec getitem_def
      np_index_def is_black_pixel_def pixel_at_def black_def white_def)

section \<open>Images that are all background\<close>

lemma all_black_no_evidence:
  assumes "width img \<le> height img"
    and "\<forall>r c. is_black_pixel (px img r c) tol"
  shows "find_non_black_pixels img tol = Inr default_results"
proof -
  have "\<forall>x\<in>set [0..<width img]. x < height img \<and> x < width img \<and>
          is_black_pixel (pixel_at img (horizontal_check_pos c img x)) tol \<and>
          is_black_pixel (pixel_at img (vertical_check_pos c img x)) tol" for c
    using assms by (simp add: pixel_at_def)
  then have "scan_corner c img tol ([0..<width img] @ []) st = scan_corner c img tol [] st" for c st
    by (rule scan_corner_skip)
  then have "scan_corner c img tol [0..<width img] st = Inr st" for c st
    by simp
  then show ?thesis
    by (simp add: find_non_black_pixels_def default_results_def)
qed

lemma all_black_wider_than_high:
  assumes "height img < width img"
    and "\<forall>r c. is_black_pixel (px img r c) tol"
  shows "find_non_black_pixels img tol = Inl IndexError"
proof -
  let ?h = "height img"
  have split: "[0..<width img] = [0..<?h] @ ?h # [Suc ?h..<width img]"
    using assms(1) by (rule upt_split_at)
  have "\<forall>x\<in>set [0..<?h]. x < height img \<and> x < width img \<and>
          is_black_pixel (pixel_at img (horizontal_check_pos TopLeft img x)) tol \<and>
          is_black_pixel (pixel_at img (vertical_check_pos TopLeft img x)) tol"
    using assms by (simp add: pixel_at_def)
  then have "scan_corner TopLeft img tol ([0..<?h] @ ?h # [Suc ?h..<width img]) (0, '''') =
             scan_corner TopLeft img tol (?h # [Suc ?h..<width img]) (0, '''')"
    by (rule scan_corner_skip)
  also have "\<dots> = Inl IndexError"
    using assms by (simp add: getitem_def np_index_def)
  finally show ?thesis
    using split by (simp add: find_non_black_pixels_def)
qed

text \<open>
  C5, on the code. For an image all of whose pixels are background the claim promises the
  four fallback reports and the full-image box. \<open>all_black_no_evidence\<close> gives the
  reports when the image is not wider than high. On an all-black image of two rows and
  three columns the scanner returns no reports at all: it raises the index error.
\<close>

theorem all_black_landscape_raises:
  "list_all (\<lambda>r. list_all (\<lambda>c. is_black_pixel (px landscape_black_image r c) 30) [0, 1, 2]) [0, 1] \<and>
   find_non_black_pixels landscape_black_image 30 = Inl IndexError"
  by (simp add: find_non_black_pixels_def landscape_black_image_def upt_rec getitem_def
      np_index_def is_black_pixel_def black_def)

section \<open>The range of the scan\<close>

text \<open>
  C1, on the code. The claim bounds the scan index by \<open>min(H, W) - 1\<close> and promises that
  no pixel access leaves the image. The loops run over \<open>range(width)\<close>: on the all-black
  image of one row and two columns, where \<open>min(H, W) - 1 = 0\<close>, the top-left loop reaches
  index 1, reads row 0, column 1 and then row 1, which the image does not have, and the
  scanner raises the index error.
\<close>

theorem scan_leaves_wide_image:
  "min (height wide_black_image) (width wide_black_image) - 1 = 0 \<and>
   horizontal_pixel TopLeft wide_black_image 1 = Inr black \<and>
   vertical_pixel TopLeft wide_black_image 1 = Inl IndexError \<and>
   scan_corner TopLeft wide_black_image 30 [0..<width wide_black_image] (0, '''') =
     Inl IndexError \<and>
   find_non_black_pixels wide_black_image 30 = Inl IndexError"
  by (simp add: find_non_black_pixels_def wide_black_image_def upt_rec getitem_def
      np_index_def is_black_pixel_def black_def)

section \<open>A corner without evidence\<close>

lemma scan_corner_no_hit:
  assumes "\<forall>x\<in>set xs. x < height img \<and> x < width img \<and>
             is_black_pixel (pixel_at img (horizontal_check_pos c img x)) tol \<and>
             is_black_pixel (pixel_at img (vertical_check_pos c img x)) tol"
  shows "scan_corner c img tol xs st = Inr st"
  using scan_corner_skip [OF assms, of "[]" st] by simp

text \<open>
  C3, on the code. The claim gives a corner whose scan finds nothing the report
  \<open>(0, '')\<close>, whatever the other corners found. \<open>scan_corner_no_hit\<close> shows what the loop
  does: it leaves the variables as the loop before it set them. On the 2 by 2 image whose
  only non-black pixel is at row 1, column 0, every pixel the top-right loop reads is
  black, so from \<open>(0, '')\<close> it would report \<open>(0, '')\<close>; the top-left loop before it hits
  on its column at index 1, and the scanner reports \<open>(1, vertical)\<close> for the top-right
  corner as well.
\<close>

theorem top_right_repeats_top_left:
  "is_black_pixel (pixel_at lower_left_image (horizontal_check_pos TopRight lower_left_image 0)) 30 \<and>
   is_black_pixel (pixel_at lower_left_image (vertical_check_pos TopRight lower_left_image 0)) 30 \<and>
   is_black_pixel (pixel_at lower_left_image (horizontal_check_pos TopRight lower_left_image 1)) 30 \<and>
   is_black_pixel (pixel_at lower_left_image (vertical_check_pos TopRight lower_left_image 1)) 30 \<and>
   scan_corner TopRight lower_left_image 30 [0..<width lower_left_image] (0, '''') =
     Inr (0, '''') \<and>
   find_non_black_pixels lower_left_image 30 =
     Inr \<lparr>top_left = (1, ''vertical''), top_right = (1, ''vertical''),
          bottom_left = (0, ''horizontal''), bottom_right = (1, ''horizontal'')\<rparr>"
  by (simp add: find_non_black_pixels_def lower_left_image_def upt_rec getitem_def
      np_index_def is_black_pixel_def pixel_at_def black_def white_def)

section \<open>The red square inside a black border\<close>

text \<open>
  C2 as stated fails: with the red pixel \<open>[60, 60, 255]\<close> (every channel above 30) the
  scanner does not report \<open>(2, horizontal)\<close> for the four corners, and the box of the
  reports it does return is not \<open>left=2, right=8, top=2, bottom=8\<close>.
\<close>

theorem red_square_counterexample:
  "list_all (\<lambda>channel. 30 < channel) ([60, 60, 255] :: pixel) \<and>
   find_non_black_pixels (red_square_image [60, 60, 255]) 30 \<noteq>
     Inr \<lparr>top_left = (2, ''horizontal''), top_right = (2, ''horizontal''),
          bottom_left = (2, ''horizontal''), bottom_right = (2, ''horizontal'')\<rparr> \<and>
   find_non_black_pixels (red_square_image [60, 60, 255]) 30 = Inr default_results \<and>
   crop_box default_results 10 10 0 \<noteq>
     \<lparr>box_left = 2, box_right = 8, box_top = 2, box_bottom = 8\<rparr>"
  by (simp add: find_non_black_pixels_def red_square_image_def upt_rec getitem_def
      np_index_def is_black_pixel_def black_def default_results_def crop_box_def)

text \<open>
  C2, amended. The loops read only rows 0 and 9 and columns 0 and 9, which lie in the
  border. For the 10 by 10 image with a 6 by 6 square of any pixel inside the black
  border, tolerance 30 and margin 0, the scanner reports \<open>(0, '')\<close> for the four corners
  and the box is the full image: \<open>left=0, right=10, top=0, bottom=10\<close>.
\<close>

theorem red_square_no_evidence:
  "find_non_black_pixels (red_square_image red) 30 = Inr default_results \<and>
   crop_box default_results (width (red_square_image red)) (height (red_square_image red)) 0 =
     \<lparr>box_left = 0, box_right = 10, box_top = 0, box_bottom = 10\<rparr>"
  by (simp add: find_non_black_pixels_def red_square_image_def upt_rec getitem_def
      np_index_def is_black_pixel_def black_def default_results_def crop_box_def)

section \<open>Images without rows or without columns\<close>

text \<open>
  C7 as stated fails: for the image of three rows and no column the scanner raises
  nothing and returns the four default reports.
\<close>

theorem zero_width_counterexample:
  "width zero_width_image = 0 \<and>
   find_non_black_pixels zero_width_image 30 = Inr default_results"
  by (simp add: find_non_black_pixels_def zero_width_image_def default_results_def)

text \<open>
  C7, amended. The scanner checks no dimension. An image of width 0 makes every loop
  empty, and the scanner returns the four default reports \<open>(0, '')\<close>; an image of height
  0 and positive width makes the first pixel access of the first loop fail, and the
  scanner raises the index error.
\<close>

theorem degenerate_image_scan:
  "(width img = 0 \<longrightarrow> find_non_black_pixels img tol = Inr default_results) \<and>
   (height img = 0 \<and> 0 < width img \<longrightarrow> find_non_black_pixels img tol = Inl IndexError)"
  by (simp add: find_non_black_pixels_def default_results_def upt_conv_Cons getitem_def
      np_index_def)

theorem degenerate_image_scan_witness:
  "width zero_width_image = 0 \<and>
   find_non_black_pixels zero_width_image 30 = Inr default_results \<and>
   height zero_height_image = 0 \<and> 0 < width zero_height_image \<and>
   find_non_black_pixels zero_height_image 30 = Inl IndexError"
proof -
  have w0: "width zero_width_image = 0"
    by (simp add: zero_width_image_def)
  have h0: "height zero_height_image = 0 \<and> 0 < width zero_height_image"
    by (simp add: zero_height_image_def)
  from w0 h0 degenerate_image_scan [of zero_width_image 30]
    degenerate_image_scan [of zero_height_image 30]
  show ?thesis by simp
qed

section \<open>Inward boundaries\<close>

lemma box_left_inward:
  assumes "0 \<le> fst (top_left nb) + m" and "0 \<le> fst (bottom_left nb) + m"
  shows "box_left (crop_box nb w h m) =
           max (if snd (top_left nb) = ''horizontal'' then fst (top_left nb) + m else 0)
               (if snd (bottom_left nb) = ''horizontal'' then fst (bottom_left nb) + m else 0)"
    and "0 \<le> box_left (crop_box nb w h m)"
  using assms by (auto simp add: box_left_crop_box)

lemma box_right_inward:
  assumes "0 \<le> fst (top_right nb) + m" and "0 \<le> fst (bottom_right nb) + m"
  shows "box_right (crop_box nb w h m) =
           min (if snd (top_right nb) = ''horizontal''
                then int w - fst (top_right nb) - m else int w)
               (if snd (bottom_right nb) = ''horizontal''
                then int w - fst (bottom_right nb) - m else int w)"
    and "box_right (crop_box nb w h m) \<le> int w"
  using assms by (auto simp add: box_right_crop_box)

lemma box_top_inward:
  assumes "0 \<le> fst (top_left nb) + m" and "0 \<le> fst (top_right nb) + m"
  shows "box_top (crop_box nb w h m) =
           max (if snd (top_left nb) = ''vertical'' then fst (top_left nb) + m else 0)
               (if snd (top_right nb) = ''vertical'' then fst (top_right nb) + m else 0)"
    and "0 \<le> box_top (crop_box nb w h m)"
  using assms by (auto simp add: box_top_crop_box)

lemma box_bottom_inward:
  assumes "0 \<le> fst (bottom_left nb) + m" and "0 \<le> fst (bottom_right nb) + m"
  shows "box_bottom (crop_box nb w h m) =
           min (if snd (bottom_left nb) = ''vertical''
                then int h - fst (bottom_left nb) - m else int h)
               (if snd (bottom_right nb) = ''vertical''
                then int h - fst (bottom_right nb) - m else int h)"
    and "box_bottom (crop_box nb w h m) \<le> int h"
  using assms by (auto simp add: box_bottom_crop_box)

lemma crop_box_no_evidence:
  "snd (top_left nb) \<noteq> ''horizontal'' \<and> snd (bottom_left nb) \<noteq> ''horizontal'' \<longrightarrow>
     box_left (crop_box nb w h m) = 0"
  "snd (top_right nb) \<noteq> ''horizontal'' \<and> snd (bottom_right nb) \<noteq> ''horizontal'' \<longrightarrow>
     box_right (crop_box nb w h m) = int w"
  "snd (top_left nb) \<noteq> ''vertical'' \<and> snd (top_right nb) \<noteq> ''vertical'' \<longrightarrow>
     box_top (crop_box nb w h m) = 0"
  "snd (bottom_left nb) \<noteq> ''vertical'' \<and> snd (bottom_right nb) \<noteq> ''vertical'' \<longrightarrow>
     box_bottom (crop_box nb w h m) = int h"
  by (simp_all add: box_left_crop_box box_right_crop_box box_top_crop_box box_bottom_crop_box)

text \<open>
  C4 as stated fails: the margin is any integer, and with the margin \<open>-1\<close> and a
  horizontal hit of the top-left corner at offset 0 the left boundary is \<open>-1\<close>: it has
  moved outward from the image edge \<open>0\<close>.
\<close>

theorem negative_margin_counterexample:
  "box_left (crop_box edge_reports 10 10 (- 1)) = - 1 \<and>
   box_left (crop_box edge_reports 10 10 (- 1)) < 0"
  by (simp add: crop_box_def edge_reports_def)

text \<open>
  C4, amended. For four reports, dimensions \<open>W\<close> and \<open>H\<close> and a margin such that
  \<open>offset + margin \<ge> 0\<close> at every corner (so for all offsets \<open>\<ge> 0\<close> and every margin
  \<open>\<ge> 0\<close>): left is the larger of the insets \<open>offset + margin\<close> that the top-left and
  the bottom-left corner give when their axis is horizontal (0 standing for a corner that
  gives none), right is the smaller of \<open>W - offset - margin\<close> of the top-right and the
  bottom-right corner (\<open>W\<close> for a corner that gives none), top and bottom are the same
  with the vertical evidence of the top and of the bottom corners; so every boundary is
  at its image edge or inward of it, and a side without evidence of its axis stays at
  the edge.
\<close>

theorem crop_box_inward:
  assumes "0 \<le> fst (top_left nb) + m" and "0 \<le> fst (top_right nb) + m"
    and "0 \<le> fst (bottom_left nb) + m" and "0 \<le> fst (bottom_right nb) + m"
  shows "box_left (crop_box nb w h m) =
           max (if snd (top_left nb) = ''horizontal'' then fst (top_left nb) + m else 0)
               (if snd (bottom_left nb) = ''horizontal'' then fst (bottom_left nb) + m else 0) \<and>
         box_right (crop_box nb w h m) =
           min (if snd (top_right nb) = ''horizontal''
                then int w - fst (top_right nb) - m else int w)
               (if snd (bottom_right nb) = ''horizontal''
                then int w - fst (bottom_right nb) - m else int w) \<and>
         box_top (crop_box nb w h m) =
           max (if snd (top_left nb) = ''vertical'' then fst (top_left nb) + m else 0)
               (if snd (top_right nb) = ''vertical'' then fst (top_right nb) + m else 0) \<and>
         box_bottom (crop_box nb w h m) =
           min (if snd (bottom_left nb) = ''vertical''
                then int h - fst (bottom_left nb) - m else int h)
               (if snd (bottom_right nb) = ''vertical''
                then int h - fst (bottom_right nb) - m else int h) \<and>
         0 \<le> box_left (crop_box nb w h m) \<and> box_right (crop_box nb w h m) \<le> int w \<and>
         0 \<le> box_top (crop_box nb w h m) \<and> box_bottom (crop_box nb w h m) \<le> int h \<and>
         (snd (top_left nb) \<noteq> ''horizontal'' \<and> snd (bottom_left nb) \<noteq> ''horizontal'' \<longrightarrow>
            box_left (crop_box nb w h m) = 0) \<and>
         (snd (top_right nb) \<noteq> ''horizontal'' \<and> snd (bottom_right nb) \<noteq> ''horizontal'' \<longrightarrow>
            box_right (crop_box nb w h m) = int w) \<and>
         (snd (top_left nb) \<noteq> ''vertical'' \<and> snd (top_right nb) \<noteq> ''vertical'' \<longrightarrow>
            box_top (crop_box nb w h m) = 0) \<and>
         (snd (bottom_left nb) \<noteq> ''vertical'' \<and> snd (bottom_right nb) \<noteq> ''vertical'' \<longrightarrow>
            box_bottom (crop_box nb w h m) = int h)"
  using box_left_inward [OF assms(1,3), of w h] box_right_inward [OF assms(2,4), of w h]
    box_top_inward [OF assms(1,2), of w h] box_bottom_inward [OF assms(3,4), of w h]
    crop_box_no_evidence [of nb w h m]
  by blast

theorem crop_box_inward_witness:
  "0 \<le> fst (top_left sample_reports) + 5 \<and> 0 \<le> fst (top_right sample_reports) + 5 \<and>
   0 \<le> fst (bottom_left sample_reports) + 5 \<and> 0 \<le> fst (bottom_right sample_reports) + 5 \<and>
   crop_box sample_reports 20 20 5 =
     \<lparr>box_left = 8, box_right = 20, box_top = 6, box_bottom = 11\<rparr> \<and>
   0 \<le> box_left (crop_box sample_reports 20 20 5) \<and>
   box_right (crop_box sample_reports 20 20 5) \<le> 20 \<and>
   0 \<le> box_top (crop_box sample_reports 20 20 5) \<and>
   box_bottom (crop_box sample_reports 20 20 5) \<le> 20"
proof -
  have o: "0 \<le> fst (top_left sample_reports) + 5" "0 \<le> fst (top_right sample_reports) + 5"
    "0 \<le> fst (bottom_left sample_reports) + 5" "0 \<le> fst (bottom_right sample_reports) + 5"
    by (simp_all add: sample_reports_def)
  have b: "crop_box sample_reports 20 20 5 =
     \<lparr>box_left = 8, box_right = 20, box_top = 6, box_bottom = 11\<rparr>"
    by (simp add: crop_box_def sample_reports_def)
  from o b crop_box_inward [OF o, of 20 20]
  show ?thesis by simp
qed

section \<open>The output name\<close>

lemma filter_rev_upt_Cons:
  "filter P (rev [0..<n]) = i # rest \<Longrightarrow> i < n \<and> P i \<and> (\<forall>j. i < j \<and> j < n \<longrightarrow> \<not> P j)"
proof (induction n)
  case 0
  then show ?case by simp
next
  case (Suc n)
  show ?case
  proof (cases "P n")
    case True
    with Suc.prems have "i = n" by simp
    with True show ?thesis by auto
  next
    case False
    with Suc.prems have "filter P (rev [0..<n]) = i # rest" by simp
    from Suc.IH [OF this] False show ?thesis
      by (auto simp add: less_Suc_eq)
  qed
qed

lemma rfind_lower: "- 1 \<le> rfind p c"
  by (simp add: rfind_def split: list.splits)

lemma rfind_last:
  assumes "0 \<le> rfind p c"
  shows "nat (rfind p c) < length p \<and> p ! nat (rfind p c) = c \<and>
         c \<notin> set (drop (Suc (nat (rfind p c))) p)"
proof -
  from assms obtain i rest
    where f: "filter (\<lambda>i. p ! i = c) (rev [0..<length p]) = i # rest"
    by (auto simp add: rfind_def split: list.splits)
  then have r: "rfind p c = int i"
    by (simp add: rfind_def)
  from filter_rev_upt_Cons [OF f]
  have i: "i < length p" "p ! i = c" "\<forall>j. i < j \<and> j < length p \<longrightarrow> p ! j \<noteq> c"
    by blast+
  have "c \<notin> set (drop (Suc i) p)"
    using i(3) by (auto simp add: in_set_conv_nth)
  with i r show ?thesis by simp
qed

lemma splitext_generic_parts:
  assumes "splitext_generic p sep altsep extsep = (base, ext)"
  shows "base @ ext = p \<and> (ext = [] \<or> hd ext = extsep \<and> extsep \<notin> set (tl ext))"
proof (cases "ext = []")
  case True
  with assms show ?thesis
    by (auto simp add: splitext_generic_def Let_def split: if_splits)
next
  case False
  let ?d = "nat (rfind p extsep)"
  from False assms have e: "base = take ?d p" "ext = drop ?d p"
    and lt: "- 1 < rfind p extsep"
    using rfind_lower [of p sep]
    by (auto simp add: splitext_generic_def Let_def split: if_splits option.splits)
  from lt have "0 \<le> rfind p extsep" by simp
  from rfind_last [OF this]
  have d: "?d < length p" "p ! ?d = extsep" "extsep \<notin> set (drop (Suc ?d) p)"
    by blast+
  have whole: "base @ ext = p"
    using e by simp
  have "drop ?d p = extsep # drop (Suc ?d) p"
    using d(1,2) by (metis Cons_nth_drop_Suc)
  with e(2) d(3) have "hd ext = extsep \<and> extsep \<notin> set (tl ext)"
    by simp
  with whole show ?thesis by simp
qed

lemma posix_scan_png: "cropped_filename posix_splitext ''scan.png'' = ''scan_cropped.png''"
  by (simp add: cropped_filename_def posix_splitext_def splitext_generic_def rfind_def upt_rec)

lemma posix_scan: "cropped_filename posix_splitext ''scan'' = ''scan_cropped''"
  by (simp add: cropped_filename_def posix_splitext_def splitext_generic_def rfind_def upt_rec)

lemma nt_scan_png: "cropped_filename nt_splitext ''scan.png'' = ''scan_cropped.png''"
  by (simp add: cropped_filename_def nt_splitext_def splitext_generic_def rfind_def upt_rec)

lemma nt_scan: "cropped_filename nt_splitext ''scan'' = ''scan_cropped''"
  by (simp add: cropped_filename_def nt_splitext_def splitext_generic_def rfind_def upt_rec)

lemma cropped_filename_generic:
  "\<exists>base ext. splitext_generic p sep altsep extsep = (base, ext) \<and> base @ ext = p \<and>
     (ext = [] \<or> hd ext = extsep \<and> extsep \<notin> set (tl ext)) \<and>
     cropped_filename (\<lambda>q. splitext_generic q sep altsep extsep) p = base @ ''_cropped'' @ ext"
proof -
  obtain base ext where s: "splitext_generic p sep altsep extsep = (base, ext)"
    by (cases "splitext_generic p sep altsep extsep")
  from splitext_generic_parts [OF s] s show ?thesis
    by (simp add: cropped_filename_def)
qed

lemma in_set_drop_iff: "x \<in> set (drop n xs) \<longleftrightarrow> (\<exists>i. n \<le> i \<and> i < length xs \<and> xs ! i = x)"
proof
  assume "x \<in> set (drop n xs)"
  then obtain j where j: "j < length (drop n xs)" "drop n xs ! j = x"
    by (auto simp add: in_set_conv_nth)
  then have "n \<le> n + j \<and> n + j < length xs \<and> xs ! (n + j) = x"
    by auto
  then show "\<exists>i. n \<le> i \<and> i < length xs \<and> xs ! i = x"
    by blast
next
  assume "\<exists>i. n \<le> i \<and> i < length xs \<and> xs ! i = x"
  then obtain i where i: "n \<le> i" "i < length xs" "xs ! i = x"
    by blast
  then have "i - n < length (drop n xs)" "drop n xs ! (i - n) = x"
    by auto
  then show "x \<in> set (drop n xs)"
    by (metis nth_mem)
qed

lemma rfind_less_iff: "rfind p c < int k \<longleftrightarrow> c \<notin> set (drop k p)"
proof (cases "filter (\<lambda>i. p ! i = c) (rev [0..<length p])")
  case Nil
  then have "\<forall>i<length p. p ! i \<noteq> c"
    by (auto simp add: filter_empty_conv)
  then have "c \<notin> set (drop k p)"
    by (auto simp add: in_set_drop_iff)
  moreover have "rfind p c = - 1"
    using Nil by (simp add: rfind_def)
  ultimately show ?thesis by simp
next
  case (Cons j rest)
  from filter_rev_upt_Cons [OF Cons]
  have j: "j < length p" "p ! j = c" "\<forall>j'. j < j' \<and> j' < length p \<longrightarrow> p ! j' \<noteq> c"
    by blast+
  have r: "rfind p c = int j"
    using Cons by (simp add: rfind_def)
  show ?thesis
  proof (cases "j < k")
    case True
    with j(3) have "c \<notin> set (drop k p)"
      by (auto simp add: in_set_drop_iff)
    with True r show ?thesis by simp
  next
    case False
    with j(1,2) have "\<exists>i. k \<le> i \<and> i < length p \<and> p ! i = c"
      by (intro exI [of _ j]) simp
    then have "c \<in> set (drop k p)"
      by (simp only: in_set_drop_iff)
    with False r show ?thesis by simp
  qed
qed

lemma rfind_eq:
  assumes "i < length p" and "p ! i = c" and "c \<notin> set (drop (Suc i) p)"
  shows "rfind p c = int i"
proof -
  have "rfind p c < int (Suc i)"
    using assms(3) rfind_less_iff [of p c "Suc i"] by blast
  moreover have "\<exists>j. i \<le> j \<and> j < length p \<and> p ! j = c"
    using assms(1,2) by blast
  then have "c \<in> set (drop i p)"
    by (simp only: in_set_drop_iff)
  then have "\<not> rfind p c < int i"
    using rfind_less_iff [of p c i] by blast
  ultimately show ?thesis by simp
qed

lemma skip_leading_dots_iff:
  "skip_leading_dots p e a b \<longleftrightarrow> (\<exists>k. a \<le> k \<and> k < b \<and> p ! k \<noteq> e)"
proof (induction p e a b rule: skip_leading_dots.induct)
  case (1 p e a b)
  show ?case
  proof (cases "a < b")
    case False
    then show ?thesis by auto
  next
    case True
    show ?thesis
    proof (cases "p ! a \<noteq> e")
      case ne: True
      with True show ?thesis by auto
    next
      case eq: False
      with True "1.IH" have "skip_leading_dots p e a b \<longleftrightarrow> (\<exists>k. a + 1 \<le> k \<and> k < b \<and> p ! k \<noteq> e)"
        by simp
      also have "\<dots> \<longleftrightarrow> (\<exists>k. a \<le> k \<and> k < b \<and> p ! k \<noteq> e)"
      proof
        assume "\<exists>k. a + 1 \<le> k \<and> k < b \<and> p ! k \<noteq> e"
        then obtain k where "a + 1 \<le> k" "k < b" "p ! k \<noteq> e"
          by blast
        then have "a \<le> k \<and> k < b \<and> p ! k \<noteq> e"
          by simp
        then show "\<exists>k. a \<le> k \<and> k < b \<and> p ! k \<noteq> e"
          by blast
      next
        assume "\<exists>k. a \<le> k \<and> k < b \<and> p ! k \<noteq> e"
        then obtain k where k: "a \<le> k" "k < b" "p ! k \<noteq> e"
          by blast
        with eq have "k \<noteq> a"
          by auto
        with k have "a + 1 \<le> k \<and> k < b \<and> p ! k \<noteq> e"
          by simp
        then show "\<exists>k. a + 1 \<le> k \<and> k < b \<and> p ! k \<noteq> e"
          by blast
      qed
      finally show ?thesis .
    qed
  qed
qed

lemma splitext_generic_split:
  assumes i: "i < length p" "p ! i = extsep" "extsep \<notin> set (drop (Suc i) p)"
    and k: "k < i" "p ! k \<noteq> extsep" "sep \<notin> set (drop k p)"
      "case altsep of None \<Rightarrow> True | Some a \<Rightarrow> a \<notin> set (drop k p)"
  shows "splitext_generic p sep altsep extsep = (take i p, drop i p)"
proof -
  have d: "rfind p extsep = int i"
    by (rule rfind_eq [OF i])
  have s: "rfind p sep < int k"
    using k(3) rfind_less_iff [of p sep k] by blast
  have lo: "- 1 \<le> rfind p sep"
    by (rule rfind_lower)
  show ?thesis
  proof (cases altsep)
    case None
    from s lo have "nat (rfind p sep + 1) \<le> k"
      by simp
    with k(1,2) have "skip_leading_dots p extsep (nat (rfind p sep + 1)) i"
      using skip_leading_dots_iff by blast
    moreover from s k(1) have "rfind p sep < int i"
      by simp
    ultimately show ?thesis
      using None by (simp add: splitext_generic_def d del: skip_leading_dots.simps)
  next
    case (Some a)
    with k(4) have "rfind p a < int k"
      using rfind_less_iff [of p a k] by simp
    with s have m: "max (rfind p sep) (rfind p a) < int k"
      by simp
    from lo have "- 1 \<le> max (rfind p sep) (rfind p a)"
      by simp
    with m have "nat (max (rfind p sep) (rfind p a) + 1) \<le> k"
      by linarith
    with k(1,2) have "skip_leading_dots p extsep (nat (max (rfind p sep) (rfind p a) + 1)) i"
      using skip_leading_dots_iff by blast
    moreover from m k(1) have "max (rfind p sep) (rfind p a) < int i"
      by simp
    ultimately show ?thesis
      using Some by (simp add: splitext_generic_def d del: skip_leading_dots.simps)
  qed
qed

lemma splitext_generic_whole:
  assumes "splitext_generic p sep altsep extsep \<noteq> (p, [])"
  shows "\<exists>i k. i < length p \<and> p ! i = extsep \<and> extsep \<notin> set (drop (Suc i) p) \<and>
           k < i \<and> p ! k \<noteq> extsep \<and> sep \<notin> set (drop k p) \<and>
           (case altsep of None \<Rightarrow> True | Some a \<Rightarrow> a \<notin> set (drop k p))"
proof -
  define sepIndex where
    "sepIndex = (case altsep of None \<Rightarrow> rfind p sep | Some a \<Rightarrow> max (rfind p sep) (rfind p a))"
  have unfold: "splitext_generic p sep altsep extsep =
      (if sepIndex < rfind p extsep \<and>
          skip_leading_dots p extsep (nat (sepIndex + 1)) (nat (rfind p extsep))
       then (take (nat (rfind p extsep)) p, drop (nat (rfind p extsep)) p) else (p, []))"
    by (simp add: splitext_generic_def sepIndex_def Let_def del: skip_leading_dots.simps)
  have lo: "- 1 \<le> sepIndex"
    using rfind_lower [of p sep] by (cases altsep) (simp_all add: sepIndex_def)
  from assms unfold have c: "sepIndex < rfind p extsep"
    and sk: "skip_leading_dots p extsep (nat (sepIndex + 1)) (nat (rfind p extsep))"
    by (auto split: if_splits simp del: skip_leading_dots.simps)
  from c lo have nn: "0 \<le> rfind p extsep"
    by simp
  let ?i = "nat (rfind p extsep)"
  from rfind_last [OF nn]
  have i: "?i < length p" "p ! ?i = extsep" "extsep \<notin> set (drop (Suc ?i) p)"
    by blast+
  from sk obtain k where k: "nat (sepIndex + 1) \<le> k" "k < ?i" "p ! k \<noteq> extsep"
    using skip_leading_dots_iff by blast
  from k(1) lo have below: "sepIndex < int k"
    by simp
  then have "rfind p sep < int k"
    by (cases altsep) (simp_all add: sepIndex_def)
  then have s1: "sep \<notin> set (drop k p)"
    using rfind_less_iff [of p sep k] by blast
  have s2: "case altsep of None \<Rightarrow> True | Some a \<Rightarrow> a \<notin> set (drop k p)"
  proof (cases altsep)
    case None
    then show ?thesis by simp
  next
    case (Some a)
    with below have "rfind p a < int k"
      by (simp add: sepIndex_def)
    then have "a \<notin> set (drop k p)"
      using rfind_less_iff [of p a k] by blast
    with Some show ?thesis by simp
  qed
  from i k(2,3) s1 s2 show ?thesis
    by blast
qed

lemma extension_at_has_dot: "extension_at seps p i \<Longrightarrow> CHR ''.'' \<in> set p"
  unfolding extension_at_def by (metis nth_mem)

lemma posix_split:
  assumes "extension_at [CHR ''/''] p i"
  shows "posix_splitext p = (take i p, drop i p)"
proof -
  from assms obtain k where "i < length p" "p ! i = CHR ''.''"
    "CHR ''.'' \<notin> set (drop (Suc i) p)" "k < i" "p ! k \<noteq> CHR ''.''"
    "CHR ''/'' \<notin> set (drop k p)"
    by (auto simp add: extension_at_def)
  then show ?thesis
    unfolding posix_splitext_def by (intro splitext_generic_split) simp_all
qed

lemma posix_whole:
  assumes "\<forall>i. \<not> extension_at [CHR ''/''] p i"
  shows "posix_splitext p = (p, [])"
proof (rule ccontr)
  assume "posix_splitext p \<noteq> (p, [])"
  then have "splitext_generic p (CHR ''/'') None (CHR ''.'') \<noteq> (p, [])"
    by (simp add: posix_splitext_def)
  from splitext_generic_whole [OF this]
  obtain i k where "i < length p" "p ! i = CHR ''.''"
    "CHR ''.'' \<notin> set (drop (Suc i) p)" "k < i" "p ! k \<noteq> CHR ''.''"
    "CHR ''/'' \<notin> set (drop k p)"
    by auto
  then have "extension_at [CHR ''/''] p i"
    by (auto simp add: extension_at_def)
  with assms show False by blast
qed

lemma nt_split:
  assumes "extension_at [CHR 0x5C, CHR ''/''] p i"
  shows "nt_splitext p = (take i p, drop i p)"
proof -
  from assms obtain k where "i < length p" "p ! i = CHR ''.''"
    "CHR ''.'' \<notin> set (drop (Suc i) p)" "k < i" "p ! k \<noteq> CHR ''.''"
    "CHR 0x5C \<notin> set (drop k p)" "CHR ''/'' \<notin> set (drop k p)"
    by (auto simp add: extension_at_def)
  then show ?thesis
    unfolding nt_splitext_def by (intro splitext_generic_split) simp_all
qed

lemma nt_whole:
  assumes "\<forall>i. \<not> extension_at [CHR 0x5C, CHR ''/''] p i"
  shows "nt_splitext p = (p, [])"
proof (rule ccontr)
  assume "nt_splitext p \<noteq> (p, [])"
  then have "splitext_generic p (CHR 0x5C) (Some (CHR ''/'')) (CHR ''.'') \<noteq> (p, [])"
    by (simp add: nt_splitext_def)
  from splitext_generic_whole [OF this]
  obtain i k where "i < length p" "p ! i = CHR ''.''"
    "CHR ''.'' \<notin> set (drop (Suc i) p)" "k < i" "p ! k \<noteq> CHR ''.''"
    "CHR 0x5C \<notin> set (drop k p)" "CHR ''/'' \<notin> set (drop k p)"
    by auto
  then have "extension_at [CHR 0x5C, CHR ''/''] p i"
    by (auto simp add: extension_at_def)
  with assms show False by blast
qed

text \<open>
  C9 as stated fails: the path is not always split at its last extension separator. The
  last \<open>.\<close> of \<open>.bashrc\<close> is at position 0 and that of \<open>a.d/f\<close> at position 1;
  inserting \<open>_cropped\<close> there would give \<open>_cropped.bashrc\<close> and \<open>a_cropped.d/f\<close>,
  and the program gives \<open>.bashrc_cropped\<close> and \<open>a.d/f_cropped\<close>.
\<close>

theorem last_dot_counterexample:
  "rfind ''.bashrc'' (CHR ''.'') = 0 \<and>
   take 0 ''.bashrc'' @ ''_cropped'' @ drop 0 ''.bashrc'' = ''_cropped.bashrc'' \<and>
   cropped_filename posix_splitext ''.bashrc'' = ''.bashrc_cropped'' \<and>
   cropped_filename posix_splitext ''.bashrc'' \<noteq> ''_cropped.bashrc'' \<and>
   rfind ''a.d/f'' (CHR ''.'') = 1 \<and>
   take 1 ''a.d/f'' @ ''_cropped'' @ drop 1 ''a.d/f'' = ''a_cropped.d/f'' \<and>
   cropped_filename posix_splitext ''a.d/f'' = ''a.d/f_cropped'' \<and>
   cropped_filename posix_splitext ''a.d/f'' \<noteq> ''a_cropped.d/f''"
  by (simp add: cropped_filename_def posix_splitext_def splitext_generic_def rfind_def upt_rec)

text \<open>
  C9, amended. The output name is the input path with \<open>_cropped\<close> inserted before the
  extension that \<^verbatim>\<open>os.path.splitext\<close> finds. The extension starts at the last \<open>.\<close>
  of the path when that \<open>.\<close> lies in the last component of the path and some character
  of that component before it is not a \<open>.\<close> (\<open>extension_at\<close>); then \<open>_cropped\<close> is
  inserted at that \<open>.\<close>. In every other case (no \<open>.\<close>, the last \<open>.\<close> in a directory
  name, a name that only has leading dots before it) the extension is empty and
  \<open>_cropped\<close> is appended to the whole path. This holds with the POSIX and with the
  Windows \<^verbatim>\<open>os.path\<close>; \<open>scan.png\<close> gives \<open>scan_cropped.png\<close> and \<open>scan\<close> gives
  \<open>scan_cropped\<close>.
\<close>

theorem output_name_rule:
  "(extension_at [CHR ''/''] p i \<longrightarrow>
      cropped_filename posix_splitext p = take i p @ ''_cropped'' @ drop i p) \<and>
   ((\<forall>j. \<not> extension_at [CHR ''/''] p j) \<longrightarrow>
      cropped_filename posix_splitext p = p @ ''_cropped'') \<and>
   (extension_at [CHR 0x5C, CHR ''/''] p i \<longrightarrow>
      cropped_filename nt_splitext p = take i p @ ''_cropped'' @ drop i p) \<and>
   ((\<forall>j. \<not> extension_at [CHR 0x5C, CHR ''/''] p j) \<longrightarrow>
      cropped_filename nt_splitext p = p @ ''_cropped'') \<and>
   cropped_filename posix_splitext ''scan.png'' = ''scan_cropped.png'' \<and>
   cropped_filename posix_splitext ''scan'' = ''scan_cropped'' \<and>
   cropped_filename nt_splitext ''scan.png'' = ''scan_cropped.png'' \<and>
   cropped_filename nt_splitext ''scan'' = ''scan_cropped''"
proof -
  have "cropped_filename posix_splitext p = take i p @ ''_cropped'' @ drop i p"
    if "extension_at [CHR ''/''] p i"
    using posix_split [OF that] by (simp add: cropped_filename_def)
  moreover have "cropped_filename posix_splitext p = p @ ''_cropped''"
    if "\<forall>j. \<not> extension_at [CHR ''/''] p j"
    using posix_whole [OF that] by (simp add: cropped_filename_def)
  moreover have "cropped_filename nt_splitext p = take i p @ ''_cropped'' @ drop i p"
    if "extension_at [CHR 0x5C, CHR ''/''] p i"
    using nt_split [OF that] by (simp add: cropped_filename_def)
  moreover have "cropped_filename nt_splitext p = p @ ''_cropped''"
    if "\<forall>j. \<not> extension_at [CHR 0x5C, CHR ''/''] p j"
    using nt_whole [OF that] by (simp add: cropped_filename_def)
  ultimately show ?thesis
    using posix_scan_png posix_scan nt_scan_png nt_scan by blast
qed

theorem output_name_rule_witness:
  "extension_at [CHR ''/''] ''scan.png'' 4 \<and>
   cropped_filename posix_splitext ''scan.png'' = ''scan_cropped.png'' \<and>
   (\<forall>j. \<not> extension_at [CHR ''/''] ''scan'' j) \<and>
   cropped_filename posix_splitext ''scan'' = ''scan_cropped''"
proof -
  have e: "extension_at [CHR ''/''] ''scan.png'' 4"
    unfolding extension_at_def by (intro conjI exI [of _ 0]) simp_all
  have n: "\<forall>j. \<not> extension_at [CHR ''/''] ''scan'' j"
    using extension_at_has_dot [of "[CHR ''/'']" "''scan''"] by auto
  from e output_name_rule [of "''scan.png''" 4]
  have "cropped_filename posix_splitext ''scan.png'' =
      take 4 ''scan.png'' @ ''_cropped'' @ drop 4 ''scan.png''"
    by blast
  then have a: "cropped_filename posix_splitext ''scan.png'' = ''scan_cropped.png''"
    by simp
  from n output_name_rule [of "''scan''" 0]
  have b: "cropped_filename posix_splitext ''scan'' = ''scan'' @ ''_cropped''"
    by blast
  from e a n b show ?thesis
    by simp
qed

section \<open>A box that is not a region of the image\<close>

lemma small_white_scan:
  "find_non_black_pixels small_white_image 30 = Inr all_horizontal_reports"
  by (simp add: find_non_black_pixels_def small_white_image_def all_horizontal_reports_def
      upt_rec getitem_def np_index_def is_black_pixel_def white_def)

lemma small_white_box:
  "crop_box all_horizontal_reports (width small_white_image) (height small_white_image) 5 =
     \<lparr>box_left = 5, box_right = - 1, box_top = 0, box_bottom = 4\<rparr>"
  by (simp add: crop_box_def small_white_image_def all_horizontal_reports_def)

text \<open>
  The writer refuses an empty slice: on the all-white image of four rows and four columns
  the box has \<open>left = 5\<close> and \<open>right = -1\<close>, its slice has no column, and the run ends
  in the writer's exception. \<open>crop_and_save\<close> itself has checked nothing.
\<close>

lemma small_white_slice:
  "height (slice_image small_white_image 0 4 5 (- 1)) = 4 \<and>
   width (slice_image small_white_image 0 4 5 (- 1)) = 0"
  by (simp add: slice_image_def slice_index_def small_white_image_def)

lemma small_white_not_saved:
  "crop_and_save cv2_imwrite posix_splitext small_white_image all_horizontal_reports
     ''scan.png'' 5 = Inl Cv2Error"
  using small_white_slice
  by (simp add: crop_and_save_def small_white_box cv2_imwrite_def)

lemma narrow_scan: "find_non_black_pixels narrow_image 30 = Inr narrow_reports"
  by (simp add: find_non_black_pixels_def narrow_image_def narrow_reports_def upt_rec
      getitem_def np_index_def is_black_pixel_def white_def)

lemma narrow_box:
  "crop_box narrow_reports (width narrow_image) (height narrow_image) 5 =
     \<lparr>box_left = 0, box_right = - 1, box_top = 6, box_bottom = 8\<rparr>"
  by (simp add: crop_box_def narrow_image_def narrow_reports_def)

lemma narrow_slice:
  "height (slice_image narrow_image 6 8 0 (- 1)) = 2 \<and>
   width (slice_image narrow_image 6 8 0 (- 1)) = 3 \<and>
   pixel_rows (slice_image narrow_image 6 8 0 (- 1)) =
     [[[6, 0, 0], [6, 1, 0], [6, 2, 0]], [[7, 0, 0], [7, 1, 0], [7, 2, 0]]]"
  by (simp add: slice_image_def slice_index_def narrow_image_def pixel_rows_def upt_rec)

lemma narrow_saved:
  "crop_and_save cv2_imwrite posix_splitext narrow_image narrow_reports ''scan.png'' 5 =
     Inr (''scan_cropped.png'',
          [[[6, 0, 0], [6, 1, 0], [6, 2, 0]], [[7, 0, 0], [7, 1, 0], [7, 2, 0]]])"
  using narrow_slice
  by (simp add: crop_and_save_def narrow_box posix_scan_png cv2_imwrite_def)

text \<open>
  C10. The computed box is neither clamped nor checked. On \<open>narrow_image\<close> (14 rows,
  4 columns) with tolerance 30 the scanner reports a horizontal hit at offset 0 for the
  top-right corner, and with the margin 5 the box has \<open>left = 0\<close>, \<open>right = -1\<close>: the
  right coordinate is negative and not beyond the left one. No error is raised:
  \<open>crop_and_save\<close> takes the slice of that box, which reads the negative bound from the
  right edge and is rows 6 and 7 of columns 0 to 2, and the writer saves these pixels as
  \<open>scan_cropped.png\<close>.
\<close>

theorem crop_and_save_saves_invalid_box:
  "find_non_black_pixels narrow_image 30 = Inr narrow_reports \<and>
   crop_box narrow_reports (width narrow_image) (height narrow_image) 5 =
     \<lparr>box_left = 0, box_right = - 1, box_top = 6, box_bottom = 8\<rparr> \<and>
   box_right (crop_box narrow_reports (width narrow_image) (height narrow_image) 5) < 0 \<and>
   box_right (crop_box narrow_reports (width narrow_image) (height narrow_image) 5)
     \<le> box_left (crop_box narrow_reports (width narrow_image) (height narrow_image) 5) \<and>
   pixel_rows (slice_image narrow_image 6 8 0 (- 1)) =
     [[[6, 0, 0], [6, 1, 0], [6, 2, 0]], [[7, 0, 0], [7, 1, 0], [7, 2, 0]]] \<and>
   crop_and_save cv2_imwrite posix_splitext narrow_image narrow_reports ''scan.png'' 5 =
     Inr (''scan_cropped.png'',
          [[[6, 0, 0], [6, 1, 0], [6, 2, 0]], [[7, 0, 0], [7, 1, 0], [7, 2, 0]]])"
  using narrow_scan narrow_box narrow_slice narrow_saved by simp

end
